theory Spec2Isabelle
  imports Complex_Main "HOL-Library.Multiset"
begin

section \<open>Anomaly pipeline: data model\<close>

text \<open>
  The pipeline of \<^verbatim>\<open>anomaly_pipeline.py\<close> works on NumPy arrays and pandas frames.
  Floating-point numbers are idealised as real numbers; a missing value (NaN, NaT) is
  \<open>None\<close>. Every exception the Python raises is a value \<open>Inl e\<close>.
\<close>

datatype error = KeyError | ValueError | IndexError

type_synonym ndarray = "real list"

definition bind_err :: "error + 'a \<Rightarrow> ('a \<Rightarrow> error + 'b) \<Rightarrow> error + 'b" where
  "bind_err r f = (case r of Inl e \<Rightarrow> Inl e | Inr v \<Rightarrow> f v)"

text \<open>Subscripting a dict: \<^verbatim>\<open>d[k]\<close> raises KeyError on a missing key.\<close>

definition getitem :: "(string \<rightharpoonup> 'v) \<Rightarrow> string \<Rightarrow> error + 'v" where
  "getitem d k = (case d k of None \<Rightarrow> Inl KeyError | Some v \<Rightarrow> Inr v)"

subsection \<open>NumPy operations used by the ensemble\<close>

text \<open>\<^verbatim>\<open>w * a\<close> for a Python float \<open>w\<close> and a one-dimensional array \<open>a\<close>.\<close>

definition np_scale :: "real \<Rightarrow> ndarray \<Rightarrow> ndarray" where
  "np_scale w a = map (\<lambda>x. w * x) a"

text \<open>
  \<^verbatim>\<open>a + b\<close> on one-dimensional arrays, with NumPy's broadcasting: equal lengths add
  element-wise, a length-one operand is stretched, anything else raises ValueError.
\<close>

definition np_add :: "ndarray \<Rightarrow> ndarray \<Rightarrow> error + ndarray" where
  "np_add a b =
     (if length a = length b then Inr (map2 (+) a b)
      else if length a = 1 then Inr (map (\<lambda>y. hd a + y) b)
      else if length b = 1 then Inr (map (\<lambda>x. x + hd b) a)
      else Inl ValueError)"

text \<open>\<^verbatim>\<open>a.min()\<close> and \<^verbatim>\<open>a.max()\<close>: ValueError on a zero-size array.\<close>

definition np_min :: "ndarray \<Rightarrow> error + real" where
  "np_min a = (if a = [] then Inl ValueError else Inr (Min (set a)))"

definition np_max :: "ndarray \<Rightarrow> error + real" where
  "np_max a = (if a = [] then Inl ValueError else Inr (Max (set a)))"

text \<open>
  \<^verbatim>\<open>np.interp(x, xp, fp)\<close> for two-point \<open>xp\<close> and \<open>fp\<close>, as the pipeline calls it.
  NumPy first locates the key among the sample points (a linear search when there are at
  most four of them): \<open>len\<close> when the key is above the last point, \<open>-1\<close> when it is below
  the first, otherwise the index of the last point that is not above the key.
\<close>

definition binary_search_with_guess :: "real \<Rightarrow> real \<times> real \<Rightarrow> int" where
  "binary_search_with_guess key arr =
     (if key > snd arr then 2
      else if key < fst arr then - 1
      else if key \<ge> snd arr then 1
      else 0)"

text \<open>
  Then it answers \<open>left = fp[0]\<close> below the range, \<open>right = fp[-1]\<close> above it, \<open>fp[j]\<close> on
  the last point or exactly on a point, and the value of the line through the two
  neighbouring points otherwise.
\<close>

definition interp_one :: "real \<times> real \<Rightarrow> real \<times> real \<Rightarrow> real \<Rightarrow> real" where
  "interp_one xp fp x =
     (let j = binary_search_with_guess x xp in
      if j = - 1 then fst fp
      else if j = 2 then snd fp
      else if j = 1 then snd fp
      else if fst xp = x then fst fp
      else (snd fp - fst fp) / (snd xp - fst xp) * (x - fst xp) + fst fp)"

definition np_interp :: "ndarray \<Rightarrow> real \<times> real \<Rightarrow> real \<times> real \<Rightarrow> ndarray" where
  "np_interp x xp fp = map (interp_one xp fp) x"

subsection \<open>Step 5: weighted ensemble scoring\<close>

text \<open>One summand \<^verbatim>\<open>weights[d] * scores[d]\<close>; the weight is looked up first.\<close>

definition weighted :: "(string \<rightharpoonup> ndarray) \<Rightarrow> (string \<rightharpoonup> real) \<Rightarrow> string \<Rightarrow> error + ndarray" where
  "weighted scores weights d =
     bind_err (getitem weights d) (\<lambda>w.
     bind_err (getitem scores d) (\<lambda>s.
     Inr (np_scale w s)))"

definition combined_scores :: "(string \<rightharpoonup> ndarray) \<Rightarrow> (string \<rightharpoonup> real) \<Rightarrow> error + ndarray" where
  "combined_scores scores weights =
     bind_err (weighted scores weights ''IF'') (\<lambda>a.
     bind_err (weighted scores weights ''PCA'') (\<lambda>b.
     bind_err (np_add a b) (\<lambda>ab.
     bind_err (weighted scores weights ''SVM'') (\<lambda>c.
     np_add ab c))))"

definition ensemble_score :: "(string \<rightharpoonup> ndarray) \<Rightarrow> (string \<rightharpoonup> real) \<Rightarrow> error + ndarray" where
  "ensemble_score scores weights =
     bind_err (combined_scores scores weights) (\<lambda>combined.
     bind_err (np_min combined) (\<lambda>lo.
     bind_err (np_max combined) (\<lambda>hi.
     Inr (np_interp combined (lo, hi) (0, 100)))))"

subsection \<open>Sorting by index\<close>

text \<open>
  NumPy and pandas order floats and timestamps ascending with the missing value (NaN,
  NaT) after every present one.
\<close>

definition na_le :: "'a::linorder option \<Rightarrow> 'a option \<Rightarrow> bool" where
  "na_le a b = (case b of None \<Rightarrow> True
                | Some y \<Rightarrow> (case a of None \<Rightarrow> False | Some x \<Rightarrow> x \<le> y))"

text \<open>
  \<^verbatim>\<open>np.argsort(v)\<close> and the indexer behind \<^verbatim>\<open>sort_values\<close> are called with the default
  \<^verbatim>\<open>kind='quicksort'\<close>, which NumPy documents as not stable and implements differently
  from one platform to the next. The pipeline is therefore modelled over any \<open>argsort\<close>
  that returns what the library promises: a permutation of the positions that lists the
  values in ascending order.
\<close>

definition is_argsort :: "'a::linorder option list \<Rightarrow> nat list \<Rightarrow> bool" where
  "is_argsort v idx \<longleftrightarrow>
     mset idx = mset [0..<length v] \<and> sorted_wrt na_le (map (\<lambda>i. v ! i) idx)"

text \<open>
  One such sort is the insertion sort NumPy's generic quicksort runs on a partition of at
  most 16 elements: each position in turn moves left past the positions whose value is
  strictly greater. The sorted prefix is kept here from its right end.
\<close>

fun insert_left :: "'a::linorder option list \<Rightarrow> nat \<Rightarrow> nat list \<Rightarrow> nat list" where
  "insert_left v i [] = [i]"
| "insert_left v i (j # rp) =
     (if \<not> na_le (v ! j) (v ! i) then j # insert_left v i rp else i # j # rp)"

definition argsort_insertion :: "'a::linorder option list \<Rightarrow> nat list" where
  "argsort_insertion v = rev (foldl (\<lambda>rp i. insert_left v i rp) [] [0..<length v])"

subsection \<open>Step 6: top features by variance\<close>

text \<open>
  The matrix \<open>X\<close> is kept as its list of columns. \<^verbatim>\<open>X.var(axis=0)\<close> is the population
  variance of each column; it is NaN for a column without rows or with a NaN in it.
\<close>

type_synonym matrix = "real option list list"

definition np_var :: "real option list \<Rightarrow> real option" where
  "np_var c =
     (if c = [] \<or> None \<in> set c then None
      else let xs = map the c; n = real (length xs); m = sum_list xs / n
           in Some (sum_list (map (\<lambda>x. (x - m)\<^sup>2) xs) / n))"

text \<open>The slice \<^verbatim>\<open>a[:k]\<close>: a negative \<open>k\<close> counts from the end.\<close>

definition slice_to :: "int \<Rightarrow> 'a list \<Rightarrow> 'a list" where
  "slice_to k xs = (if 0 \<le> k then take (nat k) xs else take (length xs - nat (- k)) xs)"

definition get_top_features ::
    "(real option list \<Rightarrow> nat list) \<Rightarrow> matrix \<Rightarrow> string list \<Rightarrow> int \<Rightarrow> error + string list" where
  "get_top_features argsort X feature_names k =
     (let variances = map np_var X;
          top_indices = slice_to k (rev (argsort variances))
      in if \<forall>i \<in> set top_indices. i < length feature_names
         then Inr (map (\<lambda>i. feature_names ! i) top_indices)
         else Inl IndexError)"


subsection \<open>Data frames\<close>

text \<open>
  A pandas frame is kept as its list of named columns, in column order. A column is
  numeric (\<^verbatim>\<open>int64\<close>, \<^verbatim>\<open>float64\<close>: the dtypes under \<^verbatim>\<open>np.number\<close>), a parsed timestamp
  column (\<^verbatim>\<open>datetime64\<close>, nanoseconds since the epoch) or anything else (\<^verbatim>\<open>object\<close>).
  Row labels play no part in the pipeline: the index is reset after sorting, arrays are
  assigned by position and the frames that are combined are slices of one frame.
\<close>

datatype column =
    NumCol "real option list"
  | TimeCol "int option list"
  | ObjCol "string list"

type_synonym dataframe = "(string \<times> column) list"

fun col_len :: "column \<Rightarrow> nat" where
  "col_len (NumCol xs) = length xs"
| "col_len (TimeCol xs) = length xs"
| "col_len (ObjCol xs) = length xs"

text \<open>\<^verbatim>\<open>len(df)\<close> for a frame that has a column.\<close>

definition len_df :: "dataframe \<Rightarrow> nat" where
  "len_df df = (case df of [] \<Rightarrow> 0 | (_, c) # _ \<Rightarrow> col_len c)"

text \<open>\<^verbatim>\<open>df[name]\<close> raises KeyError for a name that is not a column.\<close>

definition get_column :: "dataframe \<Rightarrow> string \<Rightarrow> error + column" where
  "get_column df name = getitem (map_of df) name"

text \<open>
  \<^verbatim>\<open>df[name] = col\<close> replaces the column of that name where it stands, or appends a new
  column at the end.
\<close>

definition setitem :: "string \<Rightarrow> column \<Rightarrow> dataframe \<Rightarrow> dataframe" where
  "setitem name c df =
     (if name \<in> set (map fst df)
      then map (\<lambda>(n, old). if n = name then (n, c) else (n, old)) df
      else df @ [(name, c)])"

text \<open>Rows picked by position, as \<^verbatim>\<open>sort_values\<close> does with the sorting indexer.\<close>

fun take_col :: "nat list \<Rightarrow> column \<Rightarrow> column" where
  "take_col idx (NumCol xs) = NumCol (map (\<lambda>i. xs ! i) idx)"
| "take_col idx (TimeCol xs) = TimeCol (map (\<lambda>i. xs ! i) idx)"
| "take_col idx (ObjCol xs) = ObjCol (map (\<lambda>i. xs ! i) idx)"

definition take_rows :: "nat list \<Rightarrow> dataframe \<Rightarrow> dataframe" where
  "take_rows idx df = map (\<lambda>(n, c). (n, take_col idx c)) df"

text \<open>The slices \<^verbatim>\<open>df.iloc[:k]\<close> and \<^verbatim>\<open>df.iloc[k:]\<close>.\<close>

fun head_col :: "nat \<Rightarrow> column \<Rightarrow> column" where
  "head_col k (NumCol xs) = NumCol (take k xs)"
| "head_col k (TimeCol xs) = TimeCol (take k xs)"
| "head_col k (ObjCol xs) = ObjCol (take k xs)"

fun tail_col :: "nat \<Rightarrow> column \<Rightarrow> column" where
  "tail_col k (NumCol xs) = NumCol (drop k xs)"
| "tail_col k (TimeCol xs) = TimeCol (drop k xs)"
| "tail_col k (ObjCol xs) = ObjCol (drop k xs)"

definition iloc_to :: "nat \<Rightarrow> dataframe \<Rightarrow> dataframe" where
  "iloc_to k df = map (\<lambda>(n, c). (n, head_col k c)) df"

definition iloc_from :: "nat \<Rightarrow> dataframe \<Rightarrow> dataframe" where
  "iloc_from k df = map (\<lambda>(n, c). (n, tail_col k c)) df"

subsection \<open>The temporal split\<close>

text \<open>
  \<^verbatim>\<open>int(len(df_raw) * 0.7)\<close> is computed in binary64. The double nearest to 0.7 is
  \<open>6305039478318694 / 2^53\<close>; the row count converts exactly (it is below \<open>2^53\<close>); the
  product is rounded to 53 significant bits, to nearest with ties to even; \<^verbatim>\<open>int\<close>
  drops the fraction.
\<close>

fun bit_length :: "nat \<Rightarrow> nat" where
  "bit_length n = (if n = 0 then 0 else bit_length (n div 2) + 1)"

declare bit_length.simps [simp del]

definition round_half_even :: "nat \<Rightarrow> nat \<Rightarrow> nat" where
  "round_half_even N s =
     (let q = N div 2 ^ s; r = N mod 2 ^ s
      in if 2 * r > 2 ^ s \<or> (2 * r = 2 ^ s \<and> odd q) then q + 1 else q)"

definition split_index :: "nat \<Rightarrow> nat" where
  "split_index n =
     (let N = n * 6305039478318694;
          s = bit_length N - 53;
          m = round_half_even N s
      in (m * 2 ^ s) div 2 ^ 53)"

text \<open>
  Lines 77 to 83 of \<^verbatim>\<open>run_anomaly_pipeline\<close>: parse the time column, sort the frame by
  it, cut it at the split index. \<^verbatim>\<open>pd.to_datetime\<close> is a parameter: it raises on a value
  it cannot parse and otherwise returns one timestamp (or NaT) per row.
\<close>

definition temporal_split ::
    "(column \<Rightarrow> error + int option list) \<Rightarrow> (int option list \<Rightarrow> nat list) \<Rightarrow>
     string \<Rightarrow> dataframe \<Rightarrow> error + dataframe \<times> dataframe" where
  "temporal_split to_datetime argsort time_col df_read =
     bind_err (get_column df_read time_col) (\<lambda>c.
     bind_err (to_datetime c) (\<lambda>ts.
       let df_parsed = setitem time_col (TimeCol ts) df_read;
           df_raw = take_rows (argsort ts) df_parsed;
           split_idx = split_index (len_df df_raw)
       in Inr (iloc_to split_idx df_raw, iloc_from split_idx df_raw)))"

text \<open>The timestamps of a frame's time column.\<close>

definition timestamps :: "string \<Rightarrow> dataframe \<Rightarrow> int option list" where
  "timestamps time_col df = (case map_of df time_col of Some (TimeCol ts) \<Rightarrow> ts | _ \<Rightarrow> [])"


subsection \<open>Step 1: numeric columns and mean imputation\<close>

text \<open>A frame of numeric columns only, as \<^verbatim>\<open>select_dtypes(include=[np.number])\<close> returns.\<close>

type_synonym numframe = "(string \<times> real option list) list"

fun numeric_part :: "string \<times> column \<Rightarrow> (string \<times> real option list) list" where
  "numeric_part (name, NumCol xs) = [(name, xs)]"
| "numeric_part (name, TimeCol xs) = []"
| "numeric_part (name, ObjCol xs) = []"

definition select_dtypes_number :: "dataframe \<Rightarrow> numframe" where
  "select_dtypes_number df = concat (map numeric_part df)"

text \<open>The values of a column that are not missing.\<close>

definition present :: "real option list \<Rightarrow> real list" where
  "present xs = map the (filter (\<lambda>x. x \<noteq> None) xs)"

text \<open>
  \<^verbatim>\<open>Series.mean()\<close> skips missing values; it is NaN when no value is present.
\<close>

definition nanmean :: "real option list \<Rightarrow> real option" where
  "nanmean xs =
     (let ys = present xs
      in if ys = [] then None else Some (sum_list ys / real (length ys)))"

text \<open>\<^verbatim>\<open>fillna(m)\<close> on one column; filling with NaN leaves the value missing.\<close>

definition fillna :: "real option \<Rightarrow> real option list \<Rightarrow> real option list" where
  "fillna m xs = map (\<lambda>x. case x of None \<Rightarrow> m | Some v \<Rightarrow> Some v) xs"

text \<open>
  \<^verbatim>\<open>numeric_df.fillna(numeric_df.mean())\<close> fills each column with the mean under the
  column's own name.
\<close>

definition validate_and_prepare :: "dataframe \<Rightarrow> numframe" where
  "validate_and_prepare df =
     (let numeric_df = select_dtypes_number df
      in map (\<lambda>(name, xs). (name, fillna (nanmean xs) xs)) numeric_df)"

subsection \<open>Step 2: scaling with training statistics\<close>

text \<open>
  scikit-learn's \<^verbatim>\<open>StandardScaler\<close>. Input validation rejects a frame without rows or
  without columns with ValueError. The statistics skip missing values and are NaN for a
  column with no value at all; a missing value stays missing under \<^verbatim>\<open>transform\<close>. The
  variance is the population variance and a standard deviation of zero is replaced by 1.
  \<^verbatim>\<open>transform\<close> insists on the column names seen by \<^verbatim>\<open>fit\<close>.
\<close>

record scaler =
  scaler_names :: "string list"
  scaler_mean :: "real option list"
  scaler_scale :: "real option list"

definition nanvar :: "real option list \<Rightarrow> real option" where
  "nanvar xs =
     (let ys = present xs
      in if ys = [] then None
         else let m = sum_list ys / real (length ys)
              in Some (sum_list (map (\<lambda>y. (y - m)\<^sup>2) ys) / real (length ys)))"

definition handle_zeros_in_scale :: "real \<Rightarrow> real" where
  "handle_zeros_in_scale s = (if s = 0 then 1 else s)"

definition check_array :: "numframe \<Rightarrow> error + numframe" where
  "check_array df =
     (case df of [] \<Rightarrow> Inl ValueError
      | (_, c) # _ \<Rightarrow> if c = [] then Inl ValueError else Inr df)"

definition fit :: "numframe \<Rightarrow> error + scaler" where
  "fit df =
     bind_err (check_array df) (\<lambda>X.
     Inr \<lparr>scaler_names = map fst X,
          scaler_mean = map (\<lambda>(_, c). nanmean c) X,
          scaler_scale = map (\<lambda>(_, c). map_option (\<lambda>v. handle_zeros_in_scale (sqrt v)) (nanvar c)) X\<rparr>)"

definition scale_cell :: "real option \<Rightarrow> real option \<Rightarrow> real option \<Rightarrow> real option" where
  "scale_cell m s x =
     (case x of None \<Rightarrow> None
      | Some v \<Rightarrow> (case m of None \<Rightarrow> None
          | Some mu \<Rightarrow> (case s of None \<Rightarrow> None
              | Some sd \<Rightarrow> Some ((v - mu) / sd))))"

definition transform :: "scaler \<Rightarrow> numframe \<Rightarrow> error + matrix" where
  "transform sc df =
     bind_err (check_array df) (\<lambda>X.
     if map fst X \<noteq> scaler_names sc then Inl ValueError
     else Inr (map (\<lambda>((_, c), m, s). map (scale_cell m s) c)
                   (zip X (zip (scaler_mean sc) (scaler_scale sc)))))"

definition scale_data :: "numframe \<Rightarrow> numframe \<Rightarrow> error + matrix \<times> matrix \<times> scaler" where
  "scale_data train_df test_df =
     bind_err (fit train_df) (\<lambda>scaler.
     bind_err (transform scaler train_df) (\<lambda>X_train.
     bind_err (transform scaler test_df) (\<lambda>X_test.
     Inr (X_train, X_test, scaler))))"


subsection \<open>Step 7: the output frame\<close>

text \<open>
  \<^verbatim>\<open>df[name] = array\<close>: ValueError unless the array has one value per row.
\<close>

definition assign_array :: "string \<Rightarrow> ndarray \<Rightarrow> dataframe \<Rightarrow> error + dataframe" where
  "assign_array name a df =
     (if length a = len_df df then Inr (setitem name (NumCol (map Some a)) df)
      else Inl ValueError)"

text \<open>Lines 104 to 108: the test frame with the four score columns.\<close>

definition attach_scores :: "dataframe \<Rightarrow> ndarray \<Rightarrow> (string \<rightharpoonup> ndarray) \<Rightarrow> error + dataframe" where
  "attach_scores df_test ens raw_scores =
     bind_err (assign_array ''abnormality_score'' ens df_test) (\<lambda>o1.
     bind_err (getitem raw_scores ''IF'') (\<lambda>s_if.
     bind_err (assign_array ''IF_score'' s_if o1) (\<lambda>o2.
     bind_err (getitem raw_scores ''PCA'') (\<lambda>s_pca.
     bind_err (assign_array ''PCA_score'' s_pca o2) (\<lambda>o3.
     bind_err (getitem raw_scores ''SVM'') (\<lambda>s_svm.
     assign_array ''SVM_score'' s_svm o3))))))"

text \<open>
  Lines 112 to 114: for each top feature that is a column of the test frame, a column
  \<open>col_copy\<close> holding that column of the test frame.
\<close>

definition add_copy :: "dataframe \<Rightarrow> dataframe \<Rightarrow> string \<Rightarrow> dataframe" where
  "add_copy df_test output_df col =
     (case map_of df_test col of None \<Rightarrow> output_df
      | Some c \<Rightarrow> setitem (col @ ''_copy'') c output_df)"

definition attach_copies :: "dataframe \<Rightarrow> dataframe \<Rightarrow> string list \<Rightarrow> dataframe" where
  "attach_copies df_test output_df top_features = foldl (add_copy df_test) output_df top_features"

definition assemble_output ::
    "dataframe \<Rightarrow> ndarray \<Rightarrow> (string \<rightharpoonup> ndarray) \<Rightarrow> string list \<Rightarrow> error + dataframe" where
  "assemble_output df_test ens raw_scores top_features =
     bind_err (attach_scores df_test ens raw_scores) (\<lambda>output_df.
     Inr (attach_copies df_test output_df top_features))"

subsection \<open>The pipeline\<close>

text \<open>
  \<^verbatim>\<open>run_anomaly_pipeline\<close> after the file has been read. The three detectors are library
  models: fitting them on the scaled training matrix and scoring the scaled test matrix
  is the parameter \<open>detect\<close>, which may raise and otherwise returns the raw scores.
\<close>

definition default_weights :: "string \<rightharpoonup> real" where
  "default_weights = [''IF'' \<mapsto> 1 / 2, ''PCA'' \<mapsto> 3 / 10, ''SVM'' \<mapsto> 1 / 5]"

definition run_anomaly_pipeline ::
    "(column \<Rightarrow> error + int option list) \<Rightarrow> (int option list \<Rightarrow> nat list) \<Rightarrow>
     (real option list \<Rightarrow> nat list) \<Rightarrow> (matrix \<Rightarrow> matrix \<Rightarrow> error + (string \<rightharpoonup> ndarray)) \<Rightarrow>
     string \<Rightarrow> dataframe \<Rightarrow> error + dataframe" where
  "run_anomaly_pipeline to_datetime argsort_time argsort_var detect time_col df_read =
     bind_err (temporal_split to_datetime argsort_time time_col df_read) (\<lambda>(df_train, df_test).
     let df_train_clean = validate_and_prepare df_train;
         df_test_clean = validate_and_prepare df_test;
         feature_names = map fst df_train_clean
     in
     bind_err (scale_data df_train_clean df_test_clean) (\<lambda>(X_train, X_test, _).
     bind_err (detect X_train X_test) (\<lambda>raw_scores.
     bind_err (ensemble_score raw_scores default_weights) (\<lambda>ens.
     bind_err (attach_scores df_test ens raw_scores) (\<lambda>output_df.
     bind_err (get_top_features argsort_var X_train feature_names 7) (\<lambda>top_features.
     Inr (attach_copies df_test output_df top_features)))))))"


section \<open>Properties of the ensemble\<close>

lemma combined_scores_eq:
  assumes "weights ''IF'' = Some wi" "weights ''PCA'' = Some wp" "weights ''SVM'' = Some ws"
    and "scores ''IF'' = Some si" "scores ''PCA'' = Some sp" "scores ''SVM'' = Some ss"
    and "length si = n" "length sp = n" "length ss = n"
  shows "combined_scores scores weights =
           Inr (map (\<lambda>i. wi * si ! i + wp * sp ! i + ws * ss ! i) [0..<n])"
proof -
  have ab: "map2 (+) (np_scale wi si) (np_scale wp sp) = map (\<lambda>i. wi * si ! i + wp * sp ! i) [0..<n]"
    using assms by (intro nth_equalityI) (simp_all add: np_scale_def)
  have abc: "map2 (+) (map (\<lambda>i. wi * si ! i + wp * sp ! i) [0..<n]) (np_scale ws ss)
               = map (\<lambda>i. wi * si ! i + wp * sp ! i + ws * ss ! i) [0..<n]"
    using assms by (intro nth_equalityI) (simp_all add: np_scale_def)
  show ?thesis
    using assms ab abc
    by (simp add: combined_scores_def weighted_def getitem_def bind_err_def np_add_def np_scale_def)
qed



lemma interp_one_degenerate: "interp_one (c, c) (0, 100) c = 100"
  by (simp add: interp_one_def binary_search_with_guess_def)

lemma ensemble_score_of_combined:
  assumes "combined_scores scores weights = Inr combined" "combined \<noteq> []"
  shows "ensemble_score scores weights =
           Inr (map (interp_one (Min (set combined), Max (set combined)) (0, 100)) combined)"
  using assms by (simp add: ensemble_score_def bind_err_def np_min_def np_max_def np_interp_def)



text \<open>
  Claim C2 as stated (all zeros in the degenerate case) fails: two records with equal
  combined value 1.7 both score 100.
\<close>

theorem ensemble_score_degenerate_counterexample:
  "ensemble_score [''IF'' \<mapsto> [1, 1], ''PCA'' \<mapsto> [2, 2], ''SVM'' \<mapsto> [3, 3]]
                  [''IF'' \<mapsto> 1 / 2, ''PCA'' \<mapsto> 3 / 10, ''SVM'' \<mapsto> 1 / 5] = Inr [100, 100]"
  by (simp add: ensemble_score_def combined_scores_def weighted_def getitem_def bind_err_def
      np_scale_def np_add_def np_min_def np_max_def np_interp_def interp_one_def
      binary_search_with_guess_def)

text \<open>
  Claim C2, as amended. When all combined values are equal (minimum = maximum), no
  division takes place and nothing is raised; every entry of the result is 100, the
  value \<^verbatim>\<open>np.interp\<close> gives on its last sample point.
\<close>

theorem ensemble_score_degenerate:
  assumes "combined_scores scores weights = Inr combined" "combined \<noteq> []"
    and "Min (set combined) = Max (set combined)"
  shows "ensemble_score scores weights = Inr (replicate (length combined) 100)"
proof -
  let ?c = "Min (set combined)"
  have all: "x = ?c" if "x \<in> set combined" for x
  proof -
    have "?c \<le> x" using that by simp
    moreover have "x \<le> Max (set combined)" using that by simp
    ultimately show ?thesis using assms(3) by simp
  qed
  have "map (interp_one (?c, Max (set combined)) (0, 100)) combined = replicate (length combined) 100"
  proof (intro nth_equalityI)
    fix i assume "i < length (map (interp_one (?c, Max (set combined)) (0, 100)) combined)"
    then have i: "i < length combined" by simp
    then have "combined ! i = ?c" using all by simp
    then have "interp_one (?c, Max (set combined)) (0, 100) (combined ! i) = 100"
      using assms(3) interp_one_degenerate[of ?c] by simp
    then show "map (interp_one (?c, Max (set combined)) (0, 100)) combined ! i
                 = replicate (length combined) 100 ! i"
      using i by simp
  qed simp
  then show ?thesis using ensemble_score_of_combined[OF assms(1,2)] by simp
qed

text \<open>Claim C2 as amended, at the same two records.\<close>

theorem ensemble_score_degenerate_witness:
  "combined_scores [''IF'' \<mapsto> [1, 1], ''PCA'' \<mapsto> [2, 2], ''SVM'' \<mapsto> [3, 3]]
                   [''IF'' \<mapsto> 1 / 2, ''PCA'' \<mapsto> 3 / 10, ''SVM'' \<mapsto> 1 / 5] = Inr [17 / 10, 17 / 10] \<and>
   ensemble_score [''IF'' \<mapsto> [1, 1], ''PCA'' \<mapsto> [2, 2], ''SVM'' \<mapsto> [3, 3]]
                  [''IF'' \<mapsto> 1 / 2, ''PCA'' \<mapsto> 3 / 10, ''SVM'' \<mapsto> 1 / 5] = Inr (replicate 2 100)"
proof -
  have c: "combined_scores [''IF'' \<mapsto> [1, 1], ''PCA'' \<mapsto> [2, 2], ''SVM'' \<mapsto> [3, 3]]
             [''IF'' \<mapsto> 1 / 2, ''PCA'' \<mapsto> 3 / 10, ''SVM'' \<mapsto> 1 / 5] = Inr [17 / 10, 17 / 10]"
    by (simp add: combined_scores_def weighted_def getitem_def bind_err_def np_scale_def np_add_def)
  show ?thesis
    using c ensemble_score_degenerate [OF c] by (simp add: numeral_2_eq_2)
qed

text \<open>
  Claim C3 as stated fails: the weights 0.5, 0.5, 0.5 of the specification's own example
  do not sum to 1, and the ensemble returns scores for them.
\<close>

theorem invalid_weights_counterexample:
  "1 / 2 + 1 / 2 + 1 / 2 \<noteq> (1::real) \<and>
   ensemble_score [''IF'' \<mapsto> [1, 2], ''PCA'' \<mapsto> [1, 2], ''SVM'' \<mapsto> [1, 2]]
                  [''IF'' \<mapsto> 1 / 2, ''PCA'' \<mapsto> 1 / 2, ''SVM'' \<mapsto> 1 / 2] = Inr [0, 100]"
  by (simp add: ensemble_score_def combined_scores_def weighted_def getitem_def bind_err_def
      np_scale_def np_add_def np_min_def np_max_def np_interp_def interp_one_def
      binary_search_with_guess_def)

text \<open>
  Claim C3, as amended. The ensemble does not look at the sum of the weights: for any
  three weights, summing to 1 or not, and non-empty raw scores of equal length it
  returns a score array and raises nothing.
\<close>

theorem ensemble_score_no_weight_check:
  assumes "weights ''IF'' = Some wi" "weights ''PCA'' = Some wp" "weights ''SVM'' = Some ws"
    and "scores ''IF'' = Some si" "scores ''PCA'' = Some sp" "scores ''SVM'' = Some ss"
    and "length si = n" "length sp = n" "length ss = n" "0 < n"
  shows "\<exists>out. ensemble_score scores weights = Inr out \<and> length out = n"
proof -
  let ?combined = "map (\<lambda>i. wi * si ! i + wp * sp ! i + ws * ss ! i) [0..<n]"
  have "combined_scores scores weights = Inr ?combined"
    using assms(1-9) by (rule combined_scores_eq)
  moreover have "?combined \<noteq> []" using \<open>0 < n\<close> by simp
  ultimately have "ensemble_score scores weights =
      Inr (map (interp_one (Min (set ?combined), Max (set ?combined)) (0, 100)) ?combined)"
    by (rule ensemble_score_of_combined)
  then show ?thesis by simp
qed

text \<open>Claim C3 as amended, at weights summing to 1.5.\<close>

theorem ensemble_score_no_weight_check_witness:
  "1 / 2 + 1 / 2 + 1 / 2 \<noteq> (1::real) \<and>
   (\<exists>out. ensemble_score [''IF'' \<mapsto> [1, 2], ''PCA'' \<mapsto> [1, 2], ''SVM'' \<mapsto> [1, 2]]
                          [''IF'' \<mapsto> 1 / 2, ''PCA'' \<mapsto> 1 / 2, ''SVM'' \<mapsto> 1 / 2] = Inr out \<and>
          length out = 2)"
  using ensemble_score_no_weight_check [of
      "[''IF'' \<mapsto> 1 / 2, ''PCA'' \<mapsto> 1 / 2, ''SVM'' \<mapsto> 1 / 2]" "1 / 2" "1 / 2" "1 / 2"
      "[''IF'' \<mapsto> [1, 2], ''PCA'' \<mapsto> [1, 2], ''SVM'' \<mapsto> [1, 2]]" "[1, 2]" "[1, 2]" "[1, 2]" 2]
  by simp

section \<open>Properties of the feature ranking\<close>

lemma is_argsort_perm:
  assumes "is_argsort v idx"
  shows "distinct idx" "set idx = {0..<length v}" "length idx = length v"
proof -
  from assms have m: "mset idx = mset [0..<length v]" by (simp add: is_argsort_def)
  show "distinct idx" using mset_eq_imp_distinct_iff[OF m] by simp
  show "set idx = {0..<length v}" using mset_eq_setD[OF m] by simp
  show "length idx = length v" using mset_eq_length[OF m] by simp
qed

lemma is_argsort_desc:
  assumes "is_argsort v idx"
  shows "sorted_wrt (\<lambda>i j. na_le (v ! j) (v ! i)) (rev idx)"
  using assms by (simp add: is_argsort_def sorted_wrt_rev sorted_wrt_map)

lemma na_le_total: "na_le a b \<or> na_le b a"
  by (auto simp: na_le_def split: option.splits)

lemma na_le_trans: "na_le a b \<Longrightarrow> na_le b c \<Longrightarrow> na_le a c"
  by (auto simp: na_le_def split: option.splits)

lemma mset_insert_left: "mset (insert_left v i rp) = add_mset i (mset rp)"
  by (induction rp) auto

lemma set_insert_left: "set (insert_left v i rp) = insert i (set rp)"
  by (induction rp) auto

lemma sorted_insert_left:
  "sorted_wrt (\<lambda>a b. na_le (v ! b) (v ! a)) rp \<Longrightarrow>
   sorted_wrt (\<lambda>a b. na_le (v ! b) (v ! a)) (insert_left v i rp)"
proof (induction rp)
  case Nil
  then show ?case by simp
next
  case (Cons j rp)
  show ?case
  proof (cases "na_le (v ! j) (v ! i)")
    case True
    then have "\<forall>x\<in>set rp. na_le (v ! x) (v ! i)"
      using Cons.prems na_le_trans by fastforce
    then show ?thesis using True Cons.prems by simp
  next
    case False
    then have "na_le (v ! i) (v ! j)" using na_le_total by blast
    then show ?thesis using False Cons by (simp add: set_insert_left)
  qed
qed

lemma foldl_insert_left:
  "mset (foldl (\<lambda>rp i. insert_left v i rp) [] [0..<n]) = mset [0..<n] \<and>
   sorted_wrt (\<lambda>a b. na_le (v ! b) (v ! a)) (foldl (\<lambda>rp i. insert_left v i rp) [] [0..<n])"
proof (induction n)
  case 0
  then show ?case by simp
next
  case (Suc n)
  then show ?case by (simp add: mset_insert_left sorted_insert_left)
qed

text \<open>The insertion sort meets the library's promise, so the promise can be met.\<close>

lemma argsort_insertion_sorts: "is_argsort v (argsort_insertion v)"
proof -
  let ?rp = "foldl (\<lambda>rp i. insert_left v i rp) [] [0..<length v]"
  have "sorted_wrt (\<lambda>a b. na_le (v ! b) (v ! a)) ?rp" using foldl_insert_left by blast
  then have "sorted_wrt na_le (map (\<lambda>i. v ! i) (rev ?rp))"
    by (simp add: sorted_wrt_map sorted_wrt_rev)
  moreover have "mset (rev ?rp) = mset [0..<length v]" using foldl_insert_left[of v "length v"] by simp
  ultimately show ?thesis by (simp add: is_argsort_def argsort_insertion_def)
qed


lemma get_top_features_indices:
  assumes "is_argsort (map np_var X) (argsort (map np_var X))"
    and "length feature_names = length X" and "0 \<le> k"
  shows "get_top_features argsort X feature_names k =
           Inr (map (\<lambda>i. feature_names ! i) (take (nat k) (rev (argsort (map np_var X)))))"
proof -
  let ?top = "take (nat k) (rev (argsort (map np_var X)))"
  have "set ?top \<subseteq> set (argsort (map np_var X))"
    using set_take_subset[of "nat k" "rev (argsort (map np_var X))"] by simp
  then have "\<forall>i\<in>set ?top. i < length feature_names"
    using is_argsort_perm(2)[OF assms(1)] assms(2) by auto
  then show ?thesis using assms(3) by (simp add: get_top_features_def slice_to_def Let_def)
qed




lemma np_var_example:
  "map np_var [[Some 4, Some (- 4), Some 2, Some (- 2)], [Some 1, Some (- 1), Some 1, Some (- 1)],
               [Some 10, Some (- 10), Some 10, Some (- 10)]] = [Some 10, Some 1, Some 100]"
  by (simp add: np_var_def)

lemma argsort_three:
  assumes "is_argsort [Some 10, Some 1, Some (100::real)] idx"
  shows "idx = [1, 0, 2]"
proof -
  let ?v = "[Some 10, Some 1, Some (100::real)]"
  note perm = is_argsort_perm[OF assms]
  from perm(3) obtain a b c where idx: "idx = [a, b, c]"
    by (auto simp: length_Suc_conv numeral_3_eq_3)
  have "a \<in> set idx" "b \<in> set idx" "c \<in> set idx" using idx by simp_all
  then have mem: "a < 3" "b < 3" "c < 3" unfolding perm(2) by simp_all
  have d: "a \<noteq> b" "a \<noteq> c" "b \<noteq> c" using perm(1) idx by auto
  have s: "na_le (?v ! a) (?v ! b)" "na_le (?v ! b) (?v ! c)"
    using assms idx by (auto simp: is_argsort_def)
  have cases: "x = 0 \<or> x = 1 \<or> x = 2" if "x < 3" for x :: nat using that by arith
  show ?thesis
    using cases[OF mem(1)] cases[OF mem(2)] cases[OF mem(3)] d s
    by (auto simp: idx na_le_def)
qed

text \<open>
  The scenario of the specification: with variances 10, 1 and 100 and \<open>k = 2\<close>, every
  sort that meets the promise gives the 100 feature, then the 10 feature.
\<close>

lemma get_top_features_example:
  assumes "is_argsort [Some 10, Some 1, Some (100::real)] (argsort [Some 10, Some 1, Some 100])"
  shows "get_top_features argsort
           [[Some 4, Some (- 4), Some 2, Some (- 2)], [Some 1, Some (- 1), Some 1, Some (- 1)],
            [Some 10, Some (- 10), Some 10, Some (- 10)]] [''f10'', ''f1'', ''f100''] 2
         = Inr [''f100'', ''f10'']"
proof -
  have a: "argsort [Some 10, Some 1, Some (100::real)] = [1, 0, 2]"
    using assms by (rule argsort_three)
  show ?thesis
    unfolding get_top_features_def np_var_example Let_def a
    by (simp add: slice_to_def numeral_2_eq_2)
qed

text \<open>
  Claim C10. When \<open>k\<close> exceeds the number \<open>m\<close> of columns, the ranker raises nothing and
  returns all \<open>m\<close> names, each once, in descending order of variance.
\<close>

theorem get_top_features_all:
  assumes "is_argsort (map np_var X) (argsort (map np_var X))"
    and "length feature_names = length X" and "int (length X) < k"
  shows "\<exists>top_indices.
           get_top_features argsort X feature_names k
             = Inr (map (\<lambda>i. feature_names ! i) top_indices) \<and>
           mset top_indices = mset [0..<length X] \<and>
           mset (map (\<lambda>i. feature_names ! i) top_indices) = mset feature_names \<and>
           sorted_wrt (\<lambda>i j. na_le (np_var (X ! j)) (np_var (X ! i))) top_indices"
proof -
  let ?v = "map np_var X"
  let ?r = "rev (argsort ?v)"
  let ?P = "\<lambda>i j. na_le (?v ! j) (?v ! i)"
  note perm = is_argsort_perm[OF assms(1)]
  have k0: "0 \<le> k" using assms(3) by simp
  have tk: "take (nat k) ?r = ?r" using perm(3) assms(3) by simp
  have m: "mset ?r = mset [0..<length X]" using assms(1) by (simp add: is_argsort_def)
  have setr: "set ?r = {0..<length X}" using perm(2) by simp
  have r: "sorted_wrt ?P ?r" using assms(1) by (rule is_argsort_desc)
  have s: "sorted_wrt (\<lambda>i j. na_le (np_var (X ! j)) (np_var (X ! i))) ?r"
  proof (rule sorted_wrt_mono_rel[OF _ r])
    fix i j assume "i \<in> set ?r" "j \<in> set ?r" "?P i j"
    moreover from this setr have "i < length X" "j < length X" by auto
    ultimately show "na_le (np_var (X ! j)) (np_var (X ! i))" by simp
  qed
  have "mset (map (\<lambda>i. feature_names ! i) ?r) = image_mset (\<lambda>i. feature_names ! i) (mset [0..<length X])"
    using m by (metis mset_map)
  also have "\<dots> = mset (map (\<lambda>i. feature_names ! i) [0..<length feature_names])"
    using assms(2) by simp
  also have "\<dots> = mset feature_names" by (simp add: map_nth)
  finally have names: "mset (map (\<lambda>i. feature_names ! i) ?r) = mset feature_names" .
  show ?thesis
    using get_top_features_indices[of X argsort feature_names k, OF assms(1,2) k0] tk m names s by auto
qed

text \<open>Claim C10, on two columns with the default \<open>k = 7\<close>.\<close>

theorem get_top_features_all_witness:
  "\<exists>top_indices.
     get_top_features argsort_insertion [[Some 1, Some 3], [Some 0, Some 4]] [''u'', ''v''] 7
       = Inr (map (\<lambda>i. [''u'', ''v''] ! i) top_indices) \<and>
     mset (map (\<lambda>i. [''u'', ''v''] ! i) top_indices) = mset [''u'', ''v'']"
  using get_top_features_all [of "[[Some 1, Some 3], [Some 0, Some 4]]" argsort_insertion
      "[''u'', ''v'']" 7, OF argsort_insertion_sorts]
  by auto

section \<open>Properties of the temporal split\<close>

subsection \<open>The split index\<close>

text \<open>
  The rounded product stays within one part in \<open>2^53\<close> of the exact product, so the split
  index never reaches the row count and is positive from two rows on.
\<close>

lemma bit_length_bounds:
  "0 < n \<Longrightarrow> 2 ^ (bit_length n - 1) \<le> n \<and> n < 2 ^ bit_length n"
proof (induction n rule: bit_length.induct)
  case (1 n)
  show ?case
  proof (cases "n div 2 = 0")
    case True
    with "1.prems" have "n = 1" by (simp add: div_eq_0_iff)
    then show ?thesis by (simp add: bit_length.simps)
  next
    case False
    let ?b = "bit_length (n div 2)"
    from False "1.prems" have ih: "2 ^ (?b - 1) \<le> n div 2" "n div 2 < 2 ^ ?b"
      using "1.IH" by auto
    have bpos: "0 < ?b" using False by (simp add: bit_length.simps[of "n div 2"])
    have bl: "bit_length n = ?b + 1" using "1.prems" by (simp add: bit_length.simps[of n])
    have "(2::nat) ^ ?b = 2 * 2 ^ (?b - 1)" using bpos by (cases ?b) simp_all
    then have lo: "2 ^ ?b \<le> n" using ih(1) by linarith
    have hi: "n < 2 * 2 ^ ?b" using ih(2) by linarith
    show ?thesis using lo hi bl by simp
  qed
qed

lemma round_half_even_bounds:
  "2 * (round_half_even N s * 2 ^ s) \<le> 2 * N + 2 ^ s \<and>
   2 * N \<le> 2 * (round_half_even N s * 2 ^ s) + 2 ^ s"
proof -
  let ?A = "(2::nat) ^ s"
  let ?q = "N div ?A" and ?r = "N mod ?A"
  have N: "N = ?q * ?A + ?r" by (rule div_mult_mod_eq[symmetric])
  have r: "?r < ?A" by simp
  show ?thesis
  proof (cases "2 * ?r > ?A \<or> (2 * ?r = ?A \<and> odd ?q)")
    case True
    then have m: "round_half_even N s = ?q + 1" by (simp add: round_half_even_def Let_def)
    have "(?q + 1) * ?A = ?q * ?A + ?A" by (simp add: algebra_simps)
    then show ?thesis unfolding m using N r True by linarith
  next
    case False
    then have m: "round_half_even N s = ?q" by (simp add: round_half_even_def Let_def)
    show ?thesis unfolding m using N r False by linarith
  qed
qed



lemma bit_length_shift:
  fixes N :: nat
  assumes "0 < N" "bit_length N - 53 \<noteq> 0"
  shows "4503599627370496 * 2 ^ (bit_length N - 53) \<le> N"
proof -
  let ?s = "bit_length N - 53"
  from assms(2) have e: "bit_length N - 1 = ?s + 52" by arith
  have "2 ^ (bit_length N - 1) \<le> N" using bit_length_bounds[OF assms(1)] by blast
  then have "2 ^ (?s + 52) \<le> N" unfolding e .
  then have "2 ^ ?s * 2 ^ 52 \<le> N" unfolding power_add .
  moreover have "(2::nat) ^ 52 = 4503599627370496" by simp
  ultimately have "2 ^ ?s * 4503599627370496 \<le> N" by metis
  then show ?thesis by (metis mult.commute)
qed


lemma window_upper:
  fixes R N A :: nat
  assumes "2 * R \<le> 2 * N + A" "A = 1 \<or> 4503599627370496 * A \<le> N"
  shows "9007199254740992 * R \<le> 9007199254740993 * N"
  using assms(2)
proof
  assume "A = 1"
  with assms(1) have "R \<le> N" by linarith
  then show ?thesis by linarith
next
  assume a: "4503599627370496 * A \<le> N"
  have "4503599627370496 * (2 * R) \<le> 4503599627370496 * (2 * N + A)"
    using assms(1) by (rule mult_le_mono2)
  then have "9007199254740992 * R \<le> 9007199254740992 * N + 4503599627370496 * A"
    by (simp add: algebra_simps)
  with a show ?thesis by linarith
qed

lemma window_lower:
  fixes R N A :: nat
  assumes "2 * N \<le> 2 * R + A" "A = 1 \<or> 4503599627370496 * A \<le> N"
  shows "9007199254740991 * N \<le> 9007199254740992 * R"
  using assms(2)
proof
  assume "A = 1"
  with assms(1) have "N \<le> R" by linarith
  then show ?thesis by linarith
next
  assume a: "4503599627370496 * A \<le> N"
  have "4503599627370496 * (2 * N) \<le> 4503599627370496 * (2 * R + A)"
    using assms(1) by (rule mult_le_mono2)
  then have "9007199254740992 * N \<le> 9007199254740992 * R + 4503599627370496 * A"
    by (simp add: algebra_simps)
  with a show ?thesis by linarith
qed

lemma upper_use:
  fixes R n :: nat
  assumes "9007199254740992 * R \<le> 9007199254740993 * (n * 6305039478318694)" "0 < n"
  shows "R < n * 9007199254740992"
proof -
  have "9007199254740993 * (n * 6305039478318694) = n * 56790746890224679889212080023142"
    by simp
  moreover have "n * 56790746890224679889212080023142 < n * 81129638414606681695789005144064"
    using assms(2) by simp
  moreover have "n * 81129638414606681695789005144064 = 9007199254740992 * (n * 9007199254740992)"
    by simp
  ultimately have "9007199254740992 * R < 9007199254740992 * (n * 9007199254740992)"
    using assms(1) by linarith
  then show ?thesis by simp
qed

lemma lower_use:
  fixes R n :: nat
  assumes "9007199254740991 * (n * 6305039478318694) \<le> 9007199254740992 * R" "2 \<le> n"
  shows "9007199254740992 \<le> R"
proof -
  have "9007199254740992 * 9007199254740992 \<le> 9007199254740991 * (2 * (6305039478318694::nat))"
    by simp
  also have "\<dots> \<le> 9007199254740991 * (n * 6305039478318694)"
    using assms(2) by simp
  also have "\<dots> \<le> 9007199254740992 * R" by (rule assms(1))
  finally show ?thesis by simp
qed



lemma rounded_window:
  fixes N :: nat
  assumes "0 < N"
  shows "9007199254740992 * (round_half_even N (bit_length N - 53) * 2 ^ (bit_length N - 53))
           \<le> 9007199254740993 * N"
    and "9007199254740991 * N
           \<le> 9007199254740992 * (round_half_even N (bit_length N - 53) * 2 ^ (bit_length N - 53))"
proof -
  let ?s = "bit_length N - 53"
  let ?R = "round_half_even N ?s * 2 ^ ?s"
  have rb1: "2 * ?R \<le> 2 * N + 2 ^ ?s"
    using round_half_even_bounds[of N ?s] by (rule conjunct1)
  have rb2: "2 * N \<le> 2 * ?R + 2 ^ ?s"
    using round_half_even_bounds[of N ?s] by (rule conjunct2)
  have A: "(2::nat) ^ ?s = 1 \<or> 4503599627370496 * 2 ^ ?s \<le> N"
  proof (cases "?s = 0")
    case True
    then have "(2::nat) ^ ?s = 1" by simp
    then show ?thesis by (rule disjI1)
  next
    case False
    with assms have "4503599627370496 * 2 ^ ?s \<le> N" by (rule bit_length_shift)
    then show ?thesis by (rule disjI2)
  qed
  show "9007199254740992 * ?R \<le> 9007199254740993 * N" using rb1 A by (rule window_upper)
  show "9007199254740991 * N \<le> 9007199254740992 * ?R" using rb2 A by (rule window_lower)
qed


lemma split_index_div: "split_index n =
    round_half_even (n * 6305039478318694) (bit_length (n * 6305039478318694) - 53)
      * 2 ^ (bit_length (n * 6305039478318694) - 53) div 9007199254740992"
proof -
  have p: "(2::nat) ^ 53 = 9007199254740992" by simp
  show ?thesis unfolding split_index_def Let_def p by (rule refl)
qed

lemma split_index_less:
  assumes "0 < n"
  shows "split_index n < n"
proof -
  let ?N = "n * 6305039478318694"
  let ?R = "round_half_even ?N (bit_length ?N - 53) * 2 ^ (bit_length ?N - 53)"
  have "0 < ?N" using assms by simp
  then have "9007199254740992 * ?R \<le> 9007199254740993 * ?N" by (rule rounded_window(1))
  then have "?R < n * 9007199254740992" using assms by (rule upper_use)
  then have "?R div 9007199254740992 < n" by (rule less_mult_imp_div_less)
  then show ?thesis unfolding split_index_div .
qed

lemma split_index_positive:
  assumes "2 \<le> n"
  shows "0 < split_index n"
proof -
  let ?N = "n * 6305039478318694"
  let ?R = "round_half_even ?N (bit_length ?N - 53) * 2 ^ (bit_length ?N - 53)"
  have "0 < ?N" using assms by simp
  then have "9007199254740991 * ?N \<le> 9007199254740992 * ?R" by (rule rounded_window(2))
  then have "9007199254740992 \<le> ?R" using assms by (rule lower_use)
  then have "0 < ?R div 9007199254740992" by (simp only: div_greater_zero_iff) simp
  then show ?thesis unfolding split_index_div .
qed

lemma bit_length_0: "bit_length 0 = 0"
  by (simp add: bit_length.simps)

lemma round_half_even_0: "round_half_even 0 s = 0"
  by (simp add: round_half_even_def)

lemma split_index_0: "split_index 0 = 0"
  unfolding split_index_div by (simp add: round_half_even_0)

lemma bit_length_0_7: "bit_length 6305039478318694 = 53"
  by (simp add: bit_length.simps)

lemma split_index_1: "split_index 1 = 0"
proof -
  have r: "round_half_even 6305039478318694 0 = 6305039478318694"
    by (simp add: round_half_even_def)
  have "split_index 1 = round_half_even 6305039478318694 (bit_length 6305039478318694 - 53)
      * 2 ^ (bit_length 6305039478318694 - 53) div 9007199254740992"
    unfolding split_index_div by simp
  also have "\<dots> = 0" unfolding bit_length_0_7 by (simp add: r)
  finally show ?thesis .
qed

lemma split_index_le: "split_index n \<le> n"
proof (cases "n = 0")
  case True
  then show ?thesis by (simp add: split_index_0)
next
  case False
  then have "split_index n < n" by (intro split_index_less) simp
  then show ?thesis by simp
qed

lemma split_index_eq_0_iff: "split_index n = 0 \<longleftrightarrow> n \<le> 1"
proof
  assume z: "split_index n = 0"
  show "n \<le> 1"
  proof (rule ccontr)
    assume "\<not> n \<le> 1"
    then have "2 \<le> n" by simp
    then have "0 < split_index n" by (rule split_index_positive)
    with z show False by simp
  qed
next
  assume "n \<le> 1"
  then have "n = 0 \<or> n = 1" by arith
  then show "split_index n = 0" using split_index_0 split_index_1 by auto
qed


lemma split_index_10: "split_index 10 = 7"
proof -
  have b: "bit_length 63050394783186940 = 56" by (simp add: bit_length.simps)
  have r: "round_half_even 63050394783186940 3 = 7881299347898368"
    by (simp add: round_half_even_def)
  have "split_index 10 = round_half_even 63050394783186940 (bit_length 63050394783186940 - 53)
      * 2 ^ (bit_length 63050394783186940 - 53) div 9007199254740992"
    unfolding split_index_div by simp
  also have "\<dots> = 7" unfolding b by (simp add: r)
  finally show ?thesis .
qed

lemma split_index_90: "split_index 90 = 62"
proof -
  have b: "bit_length 567453553048682460 = 59" by (simp add: bit_length.simps)
  have r: "round_half_even 567453553048682460 6 = 8866461766385663"
    by (simp add: round_half_even_def)
  have "split_index 90 = round_half_even 567453553048682460 (bit_length 567453553048682460 - 53)
      * 2 ^ (bit_length 567453553048682460 - 53) div 9007199254740992"
    unfolding split_index_div by simp
  also have "\<dots> = 62" unfolding b by (simp add: r)
  finally show ?thesis .
qed

subsection \<open>Frames\<close>

lemma col_len_take_col: "col_len (take_col idx c) = length idx"
  by (cases c) simp_all

lemma col_len_head_col: "col_len (head_col k c) = min k (col_len c)"
  by (cases c) (simp_all add: min.commute)

lemma col_len_tail_col: "col_len (tail_col k c) = col_len c - k"
  by (cases c) simp_all

lemma len_df_take_rows: "df \<noteq> [] \<Longrightarrow> len_df (take_rows idx df) = length idx"
  by (cases df) (auto simp: len_df_def take_rows_def col_len_take_col)

lemma len_df_iloc_to: "len_df (iloc_to k df) = min k (len_df df)"
  by (cases df) (auto simp: len_df_def iloc_to_def col_len_head_col)

lemma len_df_iloc_from: "len_df (iloc_from k df) = len_df df - k"
  by (cases df) (auto simp: len_df_def iloc_from_def col_len_tail_col)

lemma map_of_take_rows: "map_of (take_rows idx df) name = map_option (take_col idx) (map_of df name)"
  by (induction df) (auto simp: take_rows_def)

lemma map_of_iloc_to: "map_of (iloc_to k df) name = map_option (head_col k) (map_of df name)"
  by (induction df) (auto simp: iloc_to_def)

lemma map_of_iloc_from: "map_of (iloc_from k df) name = map_option (tail_col k) (map_of df name)"
  by (induction df) (auto simp: iloc_from_def)

lemma map_of_replace:
  "name \<in> set (map fst df) \<Longrightarrow>
   map_of (map (\<lambda>(n, old). if n = name then (n, c) else (n, old)) df) name = Some c"
  by (induction df) auto

lemma map_of_replace_other:
  "other \<noteq> name \<Longrightarrow>
   map_of (map (\<lambda>(n, old). if n = name then (n, c) else (n, old)) df) other = map_of df other"
  by (induction df) auto

lemma map_of_setitem_same: "map_of (setitem name c df) name = Some c"
proof (cases "name \<in> set (map fst df)")
  case True
  then show ?thesis by (simp add: setitem_def map_of_replace)
next
  case False
  then have "map_of df name = None" by (simp add: map_of_eq_None_iff)
  then show ?thesis using False by (simp add: setitem_def map_add_def)
qed

lemma map_of_setitem_other:
  "other \<noteq> name \<Longrightarrow> map_of (setitem name c df) other = map_of df other"
  by (cases "map_of df other") (auto simp: setitem_def map_of_replace_other map_add_def)

lemma names_setitem_present:
  "name \<in> set (map fst df) \<Longrightarrow> map fst (setitem name c df) = map fst df"
  by (induction df) (auto simp: setitem_def)

lemma setitem_nonempty: "setitem name c df \<noteq> []"
  by (cases df) (auto simp: setitem_def)

lemma timestamps_split:
  assumes "map_of df time_col = Some (TimeCol ts)"
  shows "timestamps time_col (iloc_to k df) = take k ts"
    and "timestamps time_col (iloc_from k df) = drop k ts"
  using assms by (simp_all add: timestamps_def map_of_iloc_to map_of_iloc_from)


text \<open>What the split returns, for use below.\<close>

lemma temporal_split_sorted:
  assumes "map_of df_read time_col = Some c"
    and "to_datetime c = Inr ts"
    and "length ts = len_df df_read"
    and "is_argsort ts (argsort ts)"
  defines "n \<equiv> len_df df_read"
  defines "df_sorted \<equiv> take_rows (argsort ts) (setitem time_col (TimeCol ts) df_read)"
  shows "\<exists>train test.
           temporal_split to_datetime argsort time_col df_read = Inr (train, test) \<and>
           mset (argsort ts) = mset [0..<n] \<and>
           sorted_wrt na_le (timestamps time_col df_sorted) \<and>
           mset (timestamps time_col df_sorted) = mset ts \<and>
           train = iloc_to (split_index n) df_sorted \<and>
           test = iloc_from (split_index n) df_sorted \<and>
           len_df train = split_index n \<and>
           len_df train + len_df test = n \<and>
           timestamps time_col train @ timestamps time_col test = timestamps time_col df_sorted \<and>
           (\<forall>a\<in>set (timestamps time_col train).
              \<forall>b\<in>set (timestamps time_col test). na_le a b)"
proof -
  let ?idx = "argsort ts"
  let ?k = "split_index n"
  let ?sts = "map (\<lambda>i. ts ! i) ?idx"
  note perm = is_argsort_perm[OF assms(4)]
  have m: "mset ?idx = mset [0..<n]" using assms(3,4) by (simp add: is_argsort_def n_def)
  have len: "len_df df_sorted = n"
    using perm(3) assms(3) by (simp add: df_sorted_def len_df_take_rows setitem_nonempty n_def)
  have tcol: "map_of df_sorted time_col = Some (TimeCol ?sts)"
    by (simp add: df_sorted_def map_of_take_rows map_of_setitem_same)
  then have ts_sorted: "timestamps time_col df_sorted = ?sts" by (simp add: timestamps_def)
  have srt: "sorted_wrt na_le ?sts" using assms(4) by (simp add: is_argsort_def)
  have "mset ?sts = image_mset (\<lambda>i. ts ! i) (mset [0..<length ts])"
    using assms(4) by (metis is_argsort_def mset_map)
  also have "\<dots> = mset (map (\<lambda>i. ts ! i) [0..<length ts])" by simp
  also have "\<dots> = mset ts" by (simp add: map_nth)
  finally have mts: "mset ?sts = mset ts" .
  have run: "temporal_split to_datetime argsort time_col df_read
               = Inr (iloc_to ?k df_sorted, iloc_from ?k df_sorted)"
    using assms(1,2) len
    by (simp add: temporal_split_def get_column_def getitem_def bind_err_def Let_def df_sorted_def)
  have kle: "?k \<le> n" by (rule split_index_le)
  have l1: "len_df (iloc_to ?k df_sorted) = ?k" using kle len by (simp add: len_df_iloc_to)
  have l2: "len_df (iloc_to ?k df_sorted) + len_df (iloc_from ?k df_sorted) = n"
    using kle len by (simp add: len_df_iloc_to len_df_iloc_from)
  have t1: "timestamps time_col (iloc_to ?k df_sorted) = take ?k ?sts"
    and t2: "timestamps time_col (iloc_from ?k df_sorted) = drop ?k ?sts"
    using timestamps_split[OF tcol] by simp_all
  have "sorted_wrt na_le (take ?k ?sts @ drop ?k ?sts)" using srt by simp
  then have ord: "\<forall>a\<in>set (take ?k ?sts). \<forall>b\<in>set (drop ?k ?sts). na_le a b"
    unfolding sorted_wrt_append by blast
  have app: "timestamps time_col (iloc_to ?k df_sorted) @ timestamps time_col (iloc_from ?k df_sorted)
               = timestamps time_col df_sorted"
    unfolding t1 t2 ts_sorted by simp
  have ord': "\<forall>a\<in>set (timestamps time_col (iloc_to ?k df_sorted)).
                \<forall>b\<in>set (timestamps time_col (iloc_from ?k df_sorted)). na_le a b"
    unfolding t1 t2 by (rule ord)
  have srt': "sorted_wrt na_le (timestamps time_col df_sorted)" unfolding ts_sorted by (rule srt)
  have mts': "mset (timestamps time_col df_sorted) = mset ts" unfolding ts_sorted by (rule mts)
  show ?thesis
    using run m srt' mts' l1 l2 app ord' by blast
qed

text \<open>
  Claim C4, as amended. For a frame whose time column parses to one timestamp per row
  and any sort that lists the positions in ascending timestamp order, the split never
  fails and returns \<open>train\<close> and \<open>test\<close> as rows \<open>[0, k)\<close> and \<open>[k, n)\<close> of the sorted
  frame, where \<open>k\<close> is the binary64 value of \<open>n * 0.7\<close> without its fraction; the sorted
  rows are a permutation of the input rows in ascending timestamp order (NaT last), the
  two lengths add up to \<open>n\<close>, and every training timestamp is at most every test
  timestamp. The fraction is not an input, and nothing is said about the order of rows
  with equal timestamps.
\<close>

theorem temporal_split_partition:
  assumes "map_of df_read time_col = Some c"
    and "to_datetime c = Inr ts"
    and "length ts = len_df df_read"
    and "is_argsort ts (argsort ts)"
  defines "n \<equiv> len_df df_read"
  defines "df_sorted \<equiv> take_rows (argsort ts) (setitem time_col (TimeCol ts) df_read)"
  shows "\<exists>train test.
           temporal_split to_datetime argsort time_col df_read = Inr (train, test) \<and>
           mset (argsort ts) = mset [0..<n] \<and>
           sorted_wrt na_le (timestamps time_col df_sorted) \<and>
           mset (timestamps time_col df_sorted) = mset ts \<and>
           train = iloc_to (split_index n) df_sorted \<and>
           test = iloc_from (split_index n) df_sorted \<and>
           len_df train = split_index n \<and>
           len_df train + len_df test = n \<and>
           timestamps time_col train @ timestamps time_col test = timestamps time_col df_sorted \<and>
           (\<forall>a\<in>set (timestamps time_col train).
              \<forall>b\<in>set (timestamps time_col test). na_le a b)"
  unfolding n_def df_sorted_def using assms(1-4) by (rule temporal_split_sorted)

lemma split_index_3: "split_index 3 = 2"
proof -
  have b: "bit_length 18915118434956082 = 55" by (simp add: bit_length.simps)
  have r: "round_half_even 18915118434956082 2 = 4728779608739020"
    by (simp add: round_half_even_def)
  have "split_index 3 = round_half_even 18915118434956082 (bit_length 18915118434956082 - 53)
      * 2 ^ (bit_length 18915118434956082 - 53) div 9007199254740992"
    unfolding split_index_div by simp
  also have "\<dots> = 2" unfolding b by (simp add: r)
  finally show ?thesis .
qed

lemma split_index_Suc_0: "split_index (Suc 0) = 0"
  using split_index_1 by simp

lemma split_index_Suc_3: "split_index (Suc (Suc (Suc 0))) = 2"
  using split_index_3 by (simp add: numeral_3_eq_3)

text \<open>Claim C4 as amended, on three rows given out of order.\<close>

theorem temporal_split_partition_witness:
  "\<exists>train test.
     temporal_split (\<lambda>c. Inr [Some 30, Some 10, Some 20]) argsort_insertion ''Time''
       [(''Time'', ObjCol [''c'', ''a'', ''b'']), (''x'', NumCol [Some 3, Some 1, Some 2])]
       = Inr (train, test) \<and>
     len_df train = 2 \<and> len_df train + len_df test = 3 \<and>
     (\<forall>a\<in>set (timestamps ''Time'' train). \<forall>b\<in>set (timestamps ''Time'' test). na_le a b)"
  using temporal_split_partition [of
      "[(''Time'', ObjCol [''c'', ''a'', ''b'']), (''x'', NumCol [Some 3, Some 1, Some 2])]"
      "''Time''" "ObjCol [''c'', ''a'', ''b'']" "\<lambda>c. Inr [Some 30, Some 10, Some 20]"
      "[Some 30, Some 10, Some 20]" argsort_insertion, OF _ _ _ argsort_insertion_sorts]
  by (simp add: len_df_def split_index_Suc_3)

text \<open>
  Claim C4 as stated (for every split fraction \<open>f\<close>, \<open>k = floor(n * f)\<close>) fails: the split
  takes no fraction, and ten rows are cut at 7 whereas a fraction of one half asks for 5.
\<close>

theorem split_fraction_counterexample:
  "split_index 10 = 7 \<and> nat \<lfloor>10 * (1 / 2 :: real)\<rfloor> = 5"
  using split_index_10 by simp

subsection \<open>Empty partitions\<close>

lemma numeric_columns_of_head:
  "select_dtypes_number (iloc_to k df) = map (\<lambda>(name, xs). (name, take k xs)) (select_dtypes_number df)"
proof (induction df)
  case Nil
  then show ?case by (simp add: select_dtypes_number_def iloc_to_def)
next
  case (Cons p df)
  obtain nm c where p: "p = (nm, c)" by (cases p)
  have "select_dtypes_number (iloc_to k (p # df))
          = numeric_part (nm, head_col k c) @ select_dtypes_number (iloc_to k df)"
    by (simp add: select_dtypes_number_def iloc_to_def p)
  moreover have "numeric_part (nm, head_col k c)
          = map (\<lambda>(name, xs). (name, take k xs)) (numeric_part (nm, c))"
    by (cases c) simp_all
  moreover have "select_dtypes_number (p # df) = numeric_part (nm, c) @ select_dtypes_number df"
    by (simp add: select_dtypes_number_def p)
  ultimately show ?case using Cons.IH by simp
qed

lemma check_array_empty_rows:
  assumes "\<forall>(name, xs)\<in>set df. xs = []"
  shows "check_array df = Inl ValueError"
proof (cases df)
  case Nil
  then show ?thesis by (simp add: check_array_def)
next
  case (Cons p rest)
  obtain nm c where p: "p = (nm, c)" by (cases p)
  with Cons assms have "c = []" by auto
  then show ?thesis using Cons p by (simp add: check_array_def)
qed

lemma prepare_empty_train:
  "check_array (validate_and_prepare (iloc_to 0 df)) = Inl ValueError"
proof (rule check_array_empty_rows)
  show "\<forall>(name, xs)\<in>set (validate_and_prepare (iloc_to 0 df)). xs = []"
    by (auto simp: validate_and_prepare_def fillna_def numeric_columns_of_head)
qed

lemma scale_data_empty_train:
  "scale_data (validate_and_prepare (iloc_to 0 df)) test_df = Inl ValueError"
  by (simp add: scale_data_def fit_def prepare_empty_train bind_err_def)

text \<open>
  Claim C5 as stated fails: a frame of one row is split into an empty training partition
  and a test partition of one row, and the split returns them without an error.
\<close>

theorem empty_partition_counterexample:
  "temporal_split (\<lambda>c. Inr [Some 5]) argsort_insertion ''Time''
       [(''Time'', ObjCol [''t''])  , (''x'', NumCol [Some 1])]
     = Inr ([(''Time'', TimeCol []), (''x'', NumCol [])],
            [(''Time'', TimeCol [Some 5]), (''x'', NumCol [Some 1])])"
  by (simp add: temporal_split_def get_column_def getitem_def bind_err_def setitem_def
      take_rows_def argsort_insertion_def len_df_def split_index_Suc_0 iloc_to_def iloc_from_def)

text \<open>
  Claim C5, as amended. The split itself never fails. The training partition is empty
  exactly when the frame has at most one row, the test partition exactly when the frame
  has none. With an empty training partition the run goes on to the preparation step and
  is aborted by the scaler's fit, which raises ValueError; the code has no
  InsufficientDataError.
\<close>

theorem empty_partition_not_rejected:
  assumes "map_of df_read time_col = Some c"
    and "to_datetime c = Inr ts"
    and "length ts = len_df df_read"
    and "is_argsort ts (argsort ts)"
  shows "\<exists>train test.
           temporal_split to_datetime argsort time_col df_read = Inr (train, test) \<and>
           (len_df train = 0 \<longleftrightarrow> len_df df_read \<le> 1) \<and>
           (len_df test = 0 \<longleftrightarrow> len_df df_read = 0) \<and>
           (len_df train = 0 \<longrightarrow>
              scale_data (validate_and_prepare train) (validate_and_prepare test) = Inl ValueError \<and>
              run_anomaly_pipeline to_datetime argsort argsort_var detect time_col df_read
                = Inl ValueError)"
proof -
  let ?n = "len_df df_read"
  let ?k = "split_index ?n"
  let ?sorted = "take_rows (argsort ts) (setitem time_col (TimeCol ts) df_read)"
  from temporal_split_sorted[of df_read time_col c to_datetime ts argsort, OF assms]
  have run: "temporal_split to_datetime argsort time_col df_read
               = Inr (iloc_to ?k ?sorted, iloc_from ?k ?sorted)"
    and l1: "len_df (iloc_to ?k ?sorted) = ?k"
    and l2: "len_df (iloc_to ?k ?sorted) + len_df (iloc_from ?k ?sorted) = ?n"
    by auto
  have a: "len_df (iloc_to ?k ?sorted) = 0 \<longleftrightarrow> ?n \<le> 1"
    unfolding l1 by (rule split_index_eq_0_iff)
  have b: "len_df (iloc_from ?k ?sorted) = 0 \<longleftrightarrow> ?n = 0"
  proof (cases "?n = 0")
    case True
    then show ?thesis using l2 by simp
  next
    case False
    then have "?k < ?n" by (intro split_index_less) simp
    then show ?thesis using l1 l2 False by linarith
  qed
  have c: "scale_data (validate_and_prepare (iloc_to ?k ?sorted))
             (validate_and_prepare (iloc_from ?k ?sorted)) = Inl ValueError
           \<and> run_anomaly_pipeline to_datetime argsort argsort_var detect time_col df_read
               = Inl ValueError"
    if "len_df (iloc_to ?k ?sorted) = 0"
  proof -
    from that l1 have k0: "?k = 0" by simp
    have s: "scale_data (validate_and_prepare (iloc_to ?k ?sorted))
             (validate_and_prepare (iloc_from ?k ?sorted)) = Inl ValueError"
      unfolding k0 by (rule scale_data_empty_train)
    then have "run_anomaly_pipeline to_datetime argsort argsort_var detect time_col df_read
                 = Inl ValueError"
      unfolding run_anomaly_pipeline_def run by (simp add: bind_err_def Let_def)
    with s show ?thesis by simp
  qed
  let ?train = "iloc_to ?k ?sorted" and ?test = "iloc_from ?k ?sorted"
  have c': "len_df ?train = 0 \<longrightarrow>
           scale_data (validate_and_prepare ?train) (validate_and_prepare ?test) = Inl ValueError \<and>
           run_anomaly_pipeline to_datetime argsort argsort_var detect time_col df_read
             = Inl ValueError"
    using c by (rule impI)
  have "temporal_split to_datetime argsort time_col df_read = Inr (?train, ?test) \<and>
        (len_df ?train = 0 \<longleftrightarrow> ?n \<le> 1) \<and>
        (len_df ?test = 0 \<longleftrightarrow> ?n = 0) \<and>
        (len_df ?train = 0 \<longrightarrow>
           scale_data (validate_and_prepare ?train) (validate_and_prepare ?test) = Inl ValueError \<and>
           run_anomaly_pipeline to_datetime argsort argsort_var detect time_col df_read
             = Inl ValueError)"
    by (rule conjI[OF run conjI[OF a conjI[OF b c']]])
  then show ?thesis by (intro exI)
qed

text \<open>Claim C5 as amended, on a frame of one row.\<close>

theorem empty_partition_not_rejected_witness:
  "\<exists>train test.
     temporal_split (\<lambda>c. Inr [Some 5]) argsort_insertion ''Time''
       [(''Time'', ObjCol [''t'']), (''x'', NumCol [Some 1])] = Inr (train, test) \<and>
     len_df train = 0 \<and>
     run_anomaly_pipeline (\<lambda>c. Inr [Some 5]) argsort_insertion argsort_insertion
       (\<lambda>X_train X_test. Inr (\<lambda>d. Some [0])) ''Time''
       [(''Time'', ObjCol [''t'']), (''x'', NumCol [Some 1])] = Inl ValueError"
  using empty_partition_not_rejected [of
      "[(''Time'', ObjCol [''t'']), (''x'', NumCol [Some 1])]" "''Time''" "ObjCol [''t'']"
      "\<lambda>c. Inr [Some 5]" "[Some 5]" argsort_insertion argsort_insertion
      "\<lambda>X_train X_test. Inr (\<lambda>d. Some [0])", OF _ _ _ argsort_insertion_sorts]
  by (auto simp: len_df_def)

section \<open>Properties of the preparation and the scaling\<close>

lemma map_of_select_dtypes_number:
  "map_of df name = Some (NumCol xs) \<Longrightarrow> map_of (select_dtypes_number df) name = Some xs"
proof (induction df)
  case Nil
  then show ?case by simp
next
  case (Cons p df)
  obtain nm c where p: "p = (nm, c)" by (cases p)
  have sel: "select_dtypes_number (p # df) = numeric_part (nm, c) @ select_dtypes_number df"
    by (simp add: select_dtypes_number_def p)
  show ?case
  proof (cases "nm = name")
    case True
    with Cons.prems p have "c = NumCol xs" by simp
    then show ?thesis using True sel by simp
  next
    case False
    with Cons.prems p have "map_of df name = Some (NumCol xs)" by simp
    then have ih: "map_of (select_dtypes_number df) name = Some xs" by (rule Cons.IH)
    have "map_of (numeric_part (nm, c)) name = None" using False by (cases c) simp_all
    then show ?thesis using ih sel by (simp add: map_add_def)
  qed
qed

lemma map_of_validate_and_prepare:
  assumes "map_of df name = Some (NumCol xs)"
  shows "map_of (validate_and_prepare df) name = Some (fillna (nanmean xs) xs)"
proof -
  have "map_of (map (\<lambda>(name, xs). (name, fillna (nanmean xs) xs)) nf) name
          = map_option (\<lambda>xs. fillna (nanmean xs) xs) (map_of nf name)" for nf :: numframe
    by (induction nf) auto
  then show ?thesis
    using map_of_select_dtypes_number[OF assms] by (simp add: validate_and_prepare_def)
qed

lemma fillna_nth:
  "i < length xs \<Longrightarrow>
   fillna m xs ! i = (case xs ! i of None \<Rightarrow> m | Some v \<Rightarrow> Some v)"
  by (simp add: fillna_def)

text \<open>
  Claim C8. In each partition, a numeric column keeps its present values and every
  missing value becomes the mean of the values present in that column of that same
  partition (it stays missing when the column has no value at all). The test partition
  is imputed from the test column alone, whatever the training column holds.
\<close>

theorem validate_and_prepare_imputes:
  assumes "map_of df_train name = Some (NumCol xs_train)"
    and "map_of df_test name = Some (NumCol xs_test)"
  shows "\<exists>ys_train ys_test.
           map_of (validate_and_prepare df_train) name = Some ys_train \<and>
           map_of (validate_and_prepare df_test) name = Some ys_test \<and>
           length ys_train = length xs_train \<and> length ys_test = length xs_test \<and>
           (\<forall>i<length xs_train. ys_train ! i =
              (case xs_train ! i of Some v \<Rightarrow> Some v
               | None \<Rightarrow> if present xs_train = [] then None
                         else Some (sum_list (present xs_train) / real (length (present xs_train))))) \<and>
           (\<forall>i<length xs_test. ys_test ! i =
              (case xs_test ! i of Some v \<Rightarrow> Some v
               | None \<Rightarrow> if present xs_test = [] then None
                         else Some (sum_list (present xs_test) / real (length (present xs_test)))))"
proof -
  have fill: "\<forall>i<length xs. fillna (nanmean xs) xs ! i =
              (case xs ! i of Some v \<Rightarrow> Some v
               | None \<Rightarrow> if present xs = [] then None
                         else Some (sum_list (present xs) / real (length (present xs))))" for xs
    by (auto simp: fillna_nth nanmean_def Let_def split: option.splits)
  have len: "length (fillna m xs) = length xs" for m xs by (simp add: fillna_def)
  show ?thesis
    using map_of_validate_and_prepare[OF assms(1)] map_of_validate_and_prepare[OF assms(2)]
      fill[of xs_train] fill[of xs_test] len by blast
qed

text \<open>
  Claim C8, on a training column with mean 2 and a test column with mean 10: the missing
  test value becomes 10, not 2.
\<close>

theorem validate_and_prepare_imputes_witness:
  "\<exists>ys_train ys_test.
     map_of (validate_and_prepare [(''Time'', TimeCol [Some 1, Some 2, Some 3]),
                                   (''x'', NumCol [Some 1, None, Some 3])]) ''x'' = Some ys_train \<and>
     map_of (validate_and_prepare [(''Time'', TimeCol [Some 4, Some 5]),
                                   (''x'', NumCol [Some 10, None])]) ''x'' = Some ys_test \<and>
     ys_train ! 1 = Some 2 \<and> ys_test ! 1 = Some 10"
  using validate_and_prepare_imputes [of
      "[(''Time'', TimeCol [Some 1, Some 2, Some 3]), (''x'', NumCol [Some 1, None, Some 3])]"
      "''x''" "[Some 1, None, Some 3]"
      "[(''Time'', TimeCol [Some 4, Some 5]), (''x'', NumCol [Some 10, None])]"
      "[Some 10, None]"]
  by (auto simp: present_def)









section \<open>Properties of the output frame\<close>

lemma setitem_fresh: "name \<notin> fst ` set df \<Longrightarrow> setitem name c df = df @ [(name, c)]"
  by (simp add: setitem_def)

lemma setitem_prefix:
  assumes "name \<notin> fst ` set pre"
  shows "setitem name c (pre @ rest) = pre @ setitem name c rest"
proof -
  have "(\<lambda>(n, old). if n = name then (n, c) else (n, old)) p = p" if "p \<in> set pre" for p
  proof -
    obtain n old where p: "p = (n, old)" by (cases p)
    with that assms have "n \<noteq> name" by force
    then show ?thesis by (simp add: p)
  qed
  then have "map (\<lambda>(n, old). if n = name then (n, c) else (n, old)) pre = pre"
    by (intro map_idI)
  then show ?thesis using assms by (auto simp: setitem_def)
qed

lemma map_of_setitem_neq:
  "name \<noteq> other \<Longrightarrow> map_of (setitem name c df) other = map_of df other"
  using map_of_setitem_other[of other name c df] by auto

lemma len_df_append: "df \<noteq> [] \<Longrightarrow> len_df (df @ r) = len_df df"
  by (cases df) (simp_all add: len_df_def)

lemma copy_name_neq: "last s \<noteq> CHR ''y'' \<Longrightarrow> col @ ''_copy'' \<noteq> s"
  by (metis last.simps last_appendR list.distinct(1))

lemma attach_copies_Nil: "attach_copies df_test out [] = out"
  by (simp add: attach_copies_def)

lemma attach_copies_Cons:
  "attach_copies df_test out (col # feats) = attach_copies df_test (add_copy df_test out col) feats"
  by (simp add: attach_copies_def)

lemma attach_copies_snoc:
  "attach_copies df_test out (feats @ [col]) = add_copy df_test (attach_copies df_test out feats) col"
  by (simp add: attach_copies_def)

lemma attach_copies_prefix:
  "\<forall>col\<in>set feats. col @ ''_copy'' \<notin> fst ` set pre \<Longrightarrow>
   attach_copies df_test (pre @ rest) feats = pre @ attach_copies df_test rest feats"
proof (induction feats arbitrary: rest)
  case Nil
  then show ?case by (simp add: attach_copies_Nil)
next
  case (Cons col feats)
  have "add_copy df_test (pre @ rest) col = pre @ add_copy df_test rest col"
    using Cons.prems by (simp add: add_copy_def setitem_prefix split: option.splits)
  then show ?case using Cons by (simp add: attach_copies_Cons)
qed

lemma attach_copies_other:
  "\<forall>col\<in>set feats. col @ ''_copy'' \<noteq> name \<Longrightarrow>
   map_of (attach_copies df_test out feats) name = map_of out name"
proof (induction feats arbitrary: out)
  case Nil
  then show ?case by (simp add: attach_copies_Nil)
next
  case (Cons col feats)
  have "map_of (add_copy df_test out col) name = map_of out name"
    using Cons.prems by (simp add: add_copy_def map_of_setitem_neq split: option.splits)
  then show ?case using Cons by (simp add: attach_copies_Cons)
qed

lemma attach_copies_copy:
  "col \<in> set feats \<Longrightarrow> map_of df_test col = Some c \<Longrightarrow>
   map_of (attach_copies df_test out feats) (col @ ''_copy'') = Some c"
proof (induction feats rule: rev_induct)
  case Nil
  then show ?case by simp
next
  case (snoc x feats)
  show ?case
  proof (cases "x = col")
    case True
    then show ?thesis using snoc.prems(2)
      by (simp add: attach_copies_snoc add_copy_def map_of_setitem_same)
  next
    case False
    with snoc have ih: "map_of (attach_copies df_test out feats) (col @ ''_copy'') = Some c" by simp
    have "col @ ''_copy'' \<noteq> x @ ''_copy''" using False by simp
    then show ?thesis using ih
      by (simp add: attach_copies_snoc add_copy_def map_of_setitem_other split: option.splits)
  qed
qed

lemma setitem_col_len:
  assumes "\<forall>(nm, c)\<in>set df. col_len c = n" "col_len c' = n"
  shows "\<forall>(nm, c)\<in>set (setitem name c' df). col_len c = n"
  using assms by (auto simp: setitem_def split: if_splits)

lemma attach_copies_col_len:
  assumes "\<forall>(nm, c)\<in>set df_test. col_len c = n"
  shows "\<forall>(nm, c)\<in>set out. col_len c = n \<Longrightarrow>
         \<forall>(nm, c)\<in>set (attach_copies df_test out feats). col_len c = n"
proof (induction feats arbitrary: out)
  case Nil
  then show ?case by (simp add: attach_copies_Nil)
next
  case (Cons col feats)
  have "\<forall>(nm, c)\<in>set (add_copy df_test out col). col_len c = n"
  proof (cases "map_of df_test col")
    case None
    then show ?thesis using Cons.prems by (simp add: add_copy_def)
  next
    case (Some c)
    then have "(col, c) \<in> set df_test" by (rule map_of_SomeD)
    with assms have "col_len c = n" by auto
    with Cons.prems show ?thesis unfolding add_copy_def Some by (simp add: setitem_col_len)
  qed
  then show ?case unfolding attach_copies_Cons by (rule Cons.IH)
qed

lemma attach_scores_fresh:
  assumes "df_test \<noteq> []" and "len_df df_test = n"
    and "length ens = n"
    and "raw_scores ''IF'' = Some s_if" "raw_scores ''PCA'' = Some s_pca"
        "raw_scores ''SVM'' = Some s_svm"
    and "length s_if = n" "length s_pca = n" "length s_svm = n"
    and "''abnormality_score'' \<notin> fst ` set df_test" "''IF_score'' \<notin> fst ` set df_test"
        "''PCA_score'' \<notin> fst ` set df_test" "''SVM_score'' \<notin> fst ` set df_test"
  shows "attach_scores df_test ens raw_scores =
           Inr (df_test @ [(''abnormality_score'', NumCol (map Some ens)),
                           (''IF_score'', NumCol (map Some s_if)),
                           (''PCA_score'', NumCol (map Some s_pca)),
                           (''SVM_score'', NumCol (map Some s_svm))])"
proof -
  let ?o1 = "df_test @ [(''abnormality_score'', NumCol (map Some ens))]"
  let ?o2 = "?o1 @ [(''IF_score'', NumCol (map Some s_if))]"
  let ?o3 = "?o2 @ [(''PCA_score'', NumCol (map Some s_pca))]"
  let ?o4 = "?o3 @ [(''SVM_score'', NumCol (map Some s_svm))]"
  have a1: "assign_array ''abnormality_score'' ens df_test = Inr ?o1"
    using assms(2,3,10) by (simp add: assign_array_def setitem_fresh)
  have l1: "len_df ?o1 = n" using assms(1,2) by (simp add: len_df_append)
  have a2: "assign_array ''IF_score'' s_if ?o1 = Inr ?o2"
    using l1 assms(7,11) by (simp add: assign_array_def setitem_fresh del: append_assoc)
  have l2: "len_df ?o2 = n" using assms(1,2) by (simp add: len_df_append)
  have a3: "assign_array ''PCA_score'' s_pca ?o2 = Inr ?o3"
    using l2 assms(8,12) by (simp add: assign_array_def setitem_fresh del: append_assoc)
  have l3: "len_df ?o3 = n" using assms(1,2) by (simp add: len_df_append)
  have a4: "assign_array ''SVM_score'' s_svm ?o3 = Inr ?o4"
    using l3 assms(9,13) by (simp add: assign_array_def setitem_fresh del: append_assoc)
  have "attach_scores df_test ens raw_scores = Inr ?o4"
    unfolding attach_scores_def a1 getitem_def assms(4-6) bind_err_def
    by (simp only: sum.case option.case a2 a3 a4)
  then show ?thesis by simp
qed


lemma map_of_append_fresh:
  "name \<notin> fst ` set df \<Longrightarrow> map_of (df @ r) name = map_of r name"
  by (simp add: map_add_def map_of_eq_None_iff[THEN iffD2])

text \<open>
  Claim C9, as amended. For a test frame of \<open>n\<close> rows, scores of length \<open>n\<close>, and no test
  column named like a column that is added (\<open>abnormality_score\<close>, \<open>IF_score\<close>, \<open>PCA_score\<close>,
  \<open>SVM_score\<close>, or \<open>col_copy\<close> for a ranked feature \<open>col\<close>), the output frame has exactly the
  \<open>n\<close> rows of the test frame in every column, starts with the test frame's columns
  unchanged, and holds the composite score under \<open>abnormality_score\<close>, the three raw
  scores, and for each ranked feature a copy of its column of the test frame (the
  original, unscaled values).
\<close>

theorem assemble_output_rows:
  assumes "df_test \<noteq> []" and "\<forall>(name, c)\<in>set df_test. col_len c = n"
    and "length ens = n"
    and "raw_scores ''IF'' = Some s_if" "raw_scores ''PCA'' = Some s_pca"
        "raw_scores ''SVM'' = Some s_svm"
    and "length s_if = n" "length s_pca = n" "length s_svm = n"
    and "''abnormality_score'' \<notin> fst ` set df_test" "''IF_score'' \<notin> fst ` set df_test"
        "''PCA_score'' \<notin> fst ` set df_test" "''SVM_score'' \<notin> fst ` set df_test"
    and "\<forall>col\<in>set top_features. col @ ''_copy'' \<notin> fst ` set df_test"
  shows "\<exists>output_df.
           assemble_output df_test ens raw_scores top_features = Inr output_df \<and>
           len_df output_df = n \<and>
           (\<forall>(name, c)\<in>set output_df. col_len c = n) \<and>
           take (length df_test) output_df = df_test \<and>
           map_of output_df ''abnormality_score'' = Some (NumCol (map Some ens)) \<and>
           map_of output_df ''IF_score'' = Some (NumCol (map Some s_if)) \<and>
           map_of output_df ''PCA_score'' = Some (NumCol (map Some s_pca)) \<and>
           map_of output_df ''SVM_score'' = Some (NumCol (map Some s_svm)) \<and>
           (\<forall>col\<in>set top_features. \<forall>c. map_of df_test col = Some c \<longrightarrow>
              map_of output_df (col @ ''_copy'') = Some c)"
proof -
  let ?S = "[(''abnormality_score'', NumCol (map Some ens)),
             (''IF_score'', NumCol (map Some s_if)),
             (''PCA_score'', NumCol (map Some s_pca)),
             (''SVM_score'', NumCol (map Some s_svm))]"
  let ?o4 = "df_test @ ?S"
  let ?out = "attach_copies df_test ?o4 top_features"
  have n: "len_df df_test = n" using assms(1,2) by (cases df_test) (auto simp: len_df_def)
  have sc: "attach_scores df_test ens raw_scores = Inr ?o4"
    using assms(1) n assms(3-13) by (rule attach_scores_fresh)
  have run: "assemble_output df_test ens raw_scores top_features = Inr ?out"
    by (simp add: assemble_output_def sc bind_err_def)
  have pre: "?out = df_test @ attach_copies df_test ?S top_features"
    using assms(14) by (rule attach_copies_prefix)
  have len: "len_df ?out = n" unfolding pre using assms(1) n by (simp add: len_df_append)
  have "\<forall>(name, c)\<in>set ?o4. col_len c = n" using assms(2,3,7,8,9) by auto
  then have cols: "\<forall>(name, c)\<in>set ?out. col_len c = n"
    by (rule attach_copies_col_len[OF assms(2)])
  have tk: "take (length df_test) ?out = df_test" unfolding pre by simp
  have score: "map_of ?out name = map_of ?S name"
    if "last name \<noteq> CHR ''y''" "name \<notin> fst ` set df_test" for name
  proof -
    have "\<forall>col\<in>set top_features. col @ ''_copy'' \<noteq> name"
      using that(1) copy_name_neq by blast
    then have "map_of ?out name = map_of ?o4 name" by (rule attach_copies_other)
    also have "\<dots> = map_of ?S name" using that(2) by (rule map_of_append_fresh)
    finally show ?thesis .
  qed
  have s1: "map_of ?out ''abnormality_score'' = Some (NumCol (map Some ens))"
    using score[of "''abnormality_score''"] assms(10) by simp
  have s2: "map_of ?out ''IF_score'' = Some (NumCol (map Some s_if))"
    using score[of "''IF_score''"] assms(11) by simp
  have s3: "map_of ?out ''PCA_score'' = Some (NumCol (map Some s_pca))"
    using score[of "''PCA_score''"] assms(12) by simp
  have s4: "map_of ?out ''SVM_score'' = Some (NumCol (map Some s_svm))"
    using score[of "''SVM_score''"] assms(13) by simp
  have cp: "\<forall>col\<in>set top_features. \<forall>c. map_of df_test col = Some c \<longrightarrow>
              map_of ?out (col @ ''_copy'') = Some c"
    using attach_copies_copy by blast
  show ?thesis
    by (rule exI[of _ ?out])
       (rule conjI[OF run conjI[OF len conjI[OF cols conjI[OF tk conjI[OF s1 conjI[OF s2
          conjI[OF s3 conjI[OF s4 cp]]]]]]]])
qed

text \<open>Claim C9 as amended, on a test frame of two rows.\<close>

theorem assemble_output_rows_witness:
  "\<exists>output_df.
     assemble_output [(''Time'', TimeCol [Some 7, Some 8]), (''x'', NumCol [Some 1, None])]
       [0, 100] [''IF'' \<mapsto> [1, 2], ''PCA'' \<mapsto> [3, 4], ''SVM'' \<mapsto> [5, 6]] [''x'']
       = Inr output_df \<and>
     len_df output_df = 2 \<and>
     take 2 output_df = [(''Time'', TimeCol [Some 7, Some 8]), (''x'', NumCol [Some 1, None])] \<and>
     map_of output_df ''abnormality_score'' = Some (NumCol [Some 0, Some 100]) \<and>
     map_of output_df ''x_copy'' = Some (NumCol [Some 1, None])"
  using assemble_output_rows [of
      "[(''Time'', TimeCol [Some 7, Some 8]), (''x'', NumCol [Some 1, None])]" 2 "[0, 100]"
      "[''IF'' \<mapsto> [1, 2], ''PCA'' \<mapsto> [3, 4], ''SVM'' \<mapsto> [5, 6]]" "[1, 2]" "[3, 4]" "[5, 6]"
      "[''x'']"]
  by (auto simp: numeral_2_eq_2)

text \<open>
  Claim C9 as stated (all original fields unchanged) fails: a test frame that already
  has a column \<open>IF_score\<close>, such as an earlier output of the pipeline, loses its value 42 to
  the raw score.
\<close>

theorem overwritten_field_counterexample:
  "assemble_output [(''Time'', TimeCol [Some 7]), (''IF_score'', NumCol [Some 42])]
       [0] [''IF'' \<mapsto> [1], ''PCA'' \<mapsto> [2], ''SVM'' \<mapsto> [3]] []
     = Inr [(''Time'', TimeCol [Some 7]), (''IF_score'', NumCol [Some 1]),
            (''abnormality_score'', NumCol [Some 0]), (''PCA_score'', NumCol [Some 2]),
            (''SVM_score'', NumCol [Some 3])]"
  by (simp add: assemble_output_def attach_scores_def attach_copies_def assign_array_def
      getitem_def bind_err_def setitem_def len_df_def)

subsection \<open>The output of a run\<close>

text \<open>
  A run that returns a frame went through every stage, and the frame it returns is the
  assembled output for its test partition, its scores and its ranked features.
\<close>

lemma run_anomaly_pipeline_stages:
  assumes "run_anomaly_pipeline to_datetime argsort_time argsort_var detect time_col df_read
             = Inr output_df"
  shows "\<exists>df_train df_test X_train X_test sc raw_scores ens top_features.
           temporal_split to_datetime argsort_time time_col df_read = Inr (df_train, df_test) \<and>
           scale_data (validate_and_prepare df_train) (validate_and_prepare df_test)
             = Inr (X_train, X_test, sc) \<and>
           detect X_train X_test = Inr raw_scores \<and>
           ensemble_score raw_scores default_weights = Inr ens \<and>
           get_top_features argsort_var X_train (map fst (validate_and_prepare df_train)) 7
             = Inr top_features \<and>
           assemble_output df_test ens raw_scores top_features = Inr output_df"
  using assms
  by (auto simp: run_anomaly_pipeline_def assemble_output_def bind_err_def Let_def
      split: sum.splits prod.splits)

end
